theory Spec2Isabelle
  imports Complex_Main "HOL-Library.Log_Nat"
begin

section \<open>The polytope grid generator of \<^verbatim>\<open>src/lib/utils.py\<close>\<close>

text \<open>
  The development embeds \<^verbatim>\<open>consistent_polytope_nd\<close>. Array elements are exact reals;
  the discretization of one interval is given a second time in binary64 arithmetic, with
  every operation rounded. A NumPy array is its shape together with its elements in
  row-major order. Exceptions are values of type \<open>error\<close>, returned on the left of a
  sum.
\<close>

subsection \<open>Arrays and errors\<close>

datatype error = ValueError | IndexError | OverflowError

record ndarray =
  shape :: "nat list"
  data :: "real list"

definition ndim :: "ndarray \<Rightarrow> nat" where
  "ndim a = length (shape a)"

definition well_shaped :: "ndarray \<Rightarrow> bool" where
  "well_shaped a = (length (data a) = prod_list (shape a))"

definition matrix :: "nat \<Rightarrow> nat \<Rightarrow> real list \<Rightarrow> ndarray" where
  "matrix R K xs = \<lparr>shape = [R, K], data = xs\<rparr>"

definition vector :: "real list \<Rightarrow> ndarray" where
  "vector xs = \<lparr>shape = [length xs], data = xs\<rparr>"

definition scalar :: "real \<Rightarrow> ndarray" where
  "scalar x = \<lparr>shape = [], data = [x]\<rparr>"

text \<open>\<^verbatim>\<open>a[None, :]\<close> and \<^verbatim>\<open>np.array([a])\<close>: both put a new axis of length one in front.\<close>

definition new_leading_axis :: "ndarray \<Rightarrow> ndarray" where
  "new_leading_axis a = a\<lparr>shape := 1 # shape a\<rparr>"

text \<open>Lines 19 to 22: the handling of a rank-1 \<^verbatim>\<open>params\<close>.\<close>

definition normalize_input :: "ndarray \<Rightarrow> ndarray \<Rightarrow> ndarray \<Rightarrow> ndarray \<times> ndarray \<times> ndarray" where
  "normalize_input params delta_params_min delta_params_max =
     (if ndim params = 1
      then (new_leading_axis params, new_leading_axis delta_params_min,
            new_leading_axis delta_params_max)
      else (params, delta_params_min, delta_params_max))"

subsection \<open>Sequencing of computations that may raise\<close>

definition bind_err :: "error + 'a \<Rightarrow> ('a \<Rightarrow> error + 'b) \<Rightarrow> error + 'b" where
  "bind_err m f = (case m of Inl e \<Rightarrow> Inl e | Inr v \<Rightarrow> f v)"

text \<open>A loop that collects one result per element and stops at the first exception.\<close>

fun sequence_err :: "(error + 'a) list \<Rightarrow> error + 'a list" where
  "sequence_err [] = Inr []"
| "sequence_err (m # ms) =
     (case m of Inl e \<Rightarrow> Inl e
      | Inr v \<Rightarrow> (case sequence_err ms of Inl e \<Rightarrow> Inl e | Inr vs \<Rightarrow> Inr (v # vs)))"

text \<open>
  An elementwise binary operation on two rank-1 arrays under NumPy broadcasting: equal
  lengths combine pointwise, a length-1 operand is repeated, anything else raises.
\<close>

definition broadcast2 :: "(real \<Rightarrow> real \<Rightarrow> real) \<Rightarrow> real list \<Rightarrow> real list \<Rightarrow> error + real list" where
  "broadcast2 f xs ys =
     (if length xs = length ys then Inr (map2 f xs ys)
      else if length xs = 1 then Inr (map (f (hd xs)) ys)
      else if length ys = 1 then Inr (map (\<lambda>x. f x (hd ys)) xs)
      else Inl ValueError)"

subsection \<open>Rows, columns and the global envelope\<close>

definition row :: "nat \<Rightarrow> real list \<Rightarrow> nat \<Rightarrow> real list" where
  "row K xs d = take K (drop (d * K) xs)"

text \<open>\<^verbatim>\<open>params[:, k]\<close>\<close>

definition column :: "nat \<Rightarrow> nat \<Rightarrow> real list \<Rightarrow> nat \<Rightarrow> real list" where
  "column R K xs k = map (\<lambda>d. xs ! (d * K + k)) [0..<R]"

text \<open>
  \<^verbatim>\<open>np.min(params, axis=1)\<close> and \<^verbatim>\<open>np.max(params, axis=1)\<close>: a reduction over an axis
  of length zero raises.
\<close>

definition p_min :: "nat \<Rightarrow> nat \<Rightarrow> real list \<Rightarrow> error + real list" where
  "p_min R K xs = (if K = 0 then Inl ValueError else Inr (map (\<lambda>d. Min (set (row K xs d))) [0..<R]))"

definition p_max :: "nat \<Rightarrow> nat \<Rightarrow> real list \<Rightarrow> error + real list" where
  "p_max R K xs = (if K = 0 then Inl ValueError else Inr (map (\<lambda>d. Max (set (row K xs d))) [0..<R]))"

subsection \<open>The feasible interval of one dimension of one column\<close>

text \<open>Lines 36 and 37 at one index, for operands of equal length.\<close>

definition delta_min_k :: "real \<Rightarrow> real \<Rightarrow> real \<Rightarrow> real \<Rightarrow> real" where
  "delta_min_k dmin dmax pmin pk = max dmin (max (pmin - pk) (- dmax))"

definition delta_max_k :: "real \<Rightarrow> real \<Rightarrow> real \<Rightarrow> real" where
  "delta_max_k dmax pmax pk = min dmax (min (pmax - pk) dmax)"

subsection \<open>Discretization of one interval\<close>

text \<open>Python's \<^verbatim>\<open>int\<close> on a float rounds towards zero.\<close>

definition py_int :: "real \<Rightarrow> int" where
  "py_int x = (if 0 \<le> x then \<lfloor>x\<rfloor> else \<lceil>x\<rceil>)"

text \<open>
  Line 44. A zero \<^verbatim>\<open>step_size\<close> makes the NumPy quotient infinite or not a number, and
  \<^verbatim>\<open>int\<close> raises on both.
\<close>

definition num_dp_points :: "real \<Rightarrow> real \<Rightarrow> real \<Rightarrow> error + int" where
  "num_dp_points delta_min delta_max step_size =
     (if step_size = 0
      then (if delta_max - delta_min = 0 then Inl ValueError else Inl OverflowError)
      else Inr (py_int ((delta_max - delta_min) / step_size) + 1))"

text \<open>Lines 45 to 48; \<^verbatim>\<open>range(n)\<close> is empty for \<open>n \<le> 0\<close>.\<close>

definition range_points :: "real \<Rightarrow> real \<Rightarrow> real \<Rightarrow> int \<Rightarrow> real list" where
  "range_points delta_min delta_max step_size n =
     map (\<lambda>j. min (delta_min + real j * step_size) delta_max) [0..<nat n]"

text \<open>Lines 44 to 52; \<^verbatim>\<open>range_points[-1]\<close> raises on the empty list.\<close>

definition delta_range :: "real \<Rightarrow> real \<Rightarrow> real \<Rightarrow> error + real list" where
  "delta_range delta_min delta_max step_size =
     bind_err (num_dp_points delta_min delta_max step_size) (\<lambda>n.
       let rp = range_points delta_min delta_max step_size n in
       if rp = [] then Inl IndexError
       else if last rp < delta_max then Inr (rp @ [delta_max])
       else Inr rp)"

subsection \<open>Discretization of one interval in binary64 arithmetic\<close>



text \<open>The integer \<open>e\<close> with \<open>2 powi e \<le> x < 2 powi (e + 1)\<close>, for positive \<open>x\<close>.\<close>

definition ilog2 :: "real \<Rightarrow> int" where
  "ilog2 x = (if 1 \<le> x then bitlen \<lfloor>x\<rfloor> - 1 else - bitlen (\<lceil>1 / x\<rceil> - 1))"









subsection \<open>One column\<close>

text \<open>
  \<^verbatim>\<open>np.meshgrid(*delta_ranges, indexing="ij")\<close>, ravelled and stacked on the last axis,
  lists the Cartesian product with the first axis varying slowest; \<^verbatim>\<open>np.stack\<close> raises
  when there is no array to stack.
\<close>

definition delta_combinations :: "real list list \<Rightarrow> error + real list list" where
  "delta_combinations delta_ranges =
     (if delta_ranges = [] then Inl ValueError else Inr (product_lists delta_ranges))"

text \<open>\<^verbatim>\<open>np.clip(x, lo, hi)\<close> is \<^verbatim>\<open>np.minimum(hi, np.maximum(x, lo))\<close>.\<close>

definition clip :: "real list \<Rightarrow> real list \<Rightarrow> real list \<Rightarrow> error + real list" where
  "clip xs lo hi = bind_err (broadcast2 max xs lo) (\<lambda>ys. broadcast2 min ys hi)"

text \<open>Lines 33 to 60 for the column \<open>k\<close>, given the envelope.\<close>

definition column_grid ::
  "nat \<Rightarrow> nat \<Rightarrow> real list \<Rightarrow> real list \<Rightarrow> real list \<Rightarrow> real \<Rightarrow> real list \<Rightarrow> real list \<Rightarrow> nat
     \<Rightarrow> error + (real list \<times> real list) list" where
  "column_grid R K xs delta_params_min delta_params_max step_size pmin pmax k =
     (let p_k = column R K xs k in
      bind_err (broadcast2 max (map2 (-) pmin p_k) (map uminus delta_params_max)) (\<lambda>lo_inner.
      bind_err (broadcast2 max delta_params_min lo_inner) (\<lambda>los.
      bind_err (broadcast2 min (map2 (-) pmax p_k) delta_params_max) (\<lambda>hi_inner.
      bind_err (broadcast2 min delta_params_max hi_inner) (\<lambda>his.
      bind_err (sequence_err (map (\<lambda>d.
          if d < length los \<and> d < length his then delta_range (los ! d) (his ! d) step_size
          else Inl IndexError) [0..<R])) (\<lambda>delta_ranges.
      bind_err (delta_combinations delta_ranges) (\<lambda>combos.
      sequence_err (map (\<lambda>delta_p.
          bind_err (clip delta_p delta_params_min delta_params_max) (\<lambda>c. Inr (p_k, c)))
        combos))))))))"

subsection \<open>The whole function\<close>

text \<open>Lines 24 to 62 for a rank-2 \<^verbatim>\<open>params\<close> of shape \<open>(R, K)\<close> and rank-1 bounds.\<close>

definition polytope_grid ::
  "nat \<Rightarrow> nat \<Rightarrow> real list \<Rightarrow> real list \<Rightarrow> real list \<Rightarrow> real
     \<Rightarrow> error + (real list \<times> real list) list" where
  "polytope_grid R K xs delta_params_min delta_params_max step_size =
     bind_err (p_min R K xs) (\<lambda>pmin.
     bind_err (p_max R K xs) (\<lambda>pmax.
     bind_err (sequence_err (map
         (column_grid R K xs delta_params_min delta_params_max step_size pmin pmax) [0..<K]))
       (\<lambda>groups. Inr (concat groups))))"

text \<open>
  The function on arrays. The result is \<open>None\<close> for the shapes this development does not
  cover: after the normalization of lines 19 to 22, \<^verbatim>\<open>params\<close> has to be of rank 2 and
  both bounds of rank 1.
\<close>

definition consistent_polytope_nd ::
  "ndarray \<Rightarrow> ndarray \<Rightarrow> ndarray \<Rightarrow> real \<Rightarrow> (error + (real list \<times> real list) list) option" where
  "consistent_polytope_nd params delta_params_min delta_params_max step_size =
     (case normalize_input params delta_params_min delta_params_max of (p, lo, hi) \<Rightarrow>
        if well_shaped p \<and> well_shaped lo \<and> well_shaped hi \<and> ndim p = 2 \<and> ndim lo = 1 \<and> ndim hi = 1
        then Some (polytope_grid (shape p ! 0) (shape p ! 1) (data p) (data lo) (data hi) step_size)
        else None)"

subsection \<open>Auxiliary notions for the statements and proofs\<close>

text \<open>The stepped points \<open>lo + j * step\<close> for \<open>j = 0, \<dots>, m\<close>, not capped.\<close>

definition stepped :: "real \<Rightarrow> real \<Rightarrow> nat \<Rightarrow> real list" where
  "stepped lo step m = map (\<lambda>j. lo + real j * step) [0..<Suc m]"

text \<open>
  The feasible interval of dimension \<open>d\<close> of column \<open>k\<close>, for a \<^verbatim>\<open>params\<close> of shape
  \<open>(R, K)\<close> with elements \<open>xs\<close> and bounds of length \<open>R\<close>, and the axes of a column.
\<close>

definition interval_lo :: "nat \<Rightarrow> real list \<Rightarrow> real list \<Rightarrow> real list \<Rightarrow> nat \<Rightarrow> nat \<Rightarrow> real" where
  "interval_lo K xs dmin dmax k d =
     delta_min_k (dmin ! d) (dmax ! d) (Min (set (row K xs d))) (xs ! (d * K + k))"

definition interval_hi :: "nat \<Rightarrow> real list \<Rightarrow> real list \<Rightarrow> nat \<Rightarrow> nat \<Rightarrow> real" where
  "interval_hi K xs dmax k d =
     delta_max_k (dmax ! d) (Max (set (row K xs d))) (xs ! (d * K + k))"

definition column_axes ::
  "nat \<Rightarrow> nat \<Rightarrow> real list \<Rightarrow> real list \<Rightarrow> real list \<Rightarrow> real \<Rightarrow> nat \<Rightarrow> error + real list list" where
  "column_axes R K xs dmin dmax step k =
     sequence_err (map (\<lambda>d. delta_range (interval_lo K xs dmin dmax k d)
                                         (interval_hi K xs dmax k d) step) [0..<R])"

section \<open>Discretization of a feasible interval\<close>

lemma py_int_nonneg: "0 \<le> x \<Longrightarrow> py_int x = \<lfloor>x\<rfloor>"
  by (simp add: py_int_def)

lemma num_dp_points_feasible:
  assumes "lo \<le> hi" "0 < step"
  shows "num_dp_points lo hi step = Inr (int (Suc (nat \<lfloor>(hi - lo) / step\<rfloor>)))"
proof -
  have "0 \<le> (hi - lo) / step" using assms by simp
  then have "0 \<le> \<lfloor>(hi - lo) / step\<rfloor>" by simp
  then show ?thesis using assms \<open>0 \<le> (hi - lo) / step\<close>
    by (simp add: num_dp_points_def py_int_nonneg)
qed

lemma step_within:
  assumes "lo \<le> hi" "0 < step" "j \<le> nat \<lfloor>(hi - lo) / step\<rfloor>"
  shows "lo + real j * step \<le> hi"
proof -
  have q: "0 \<le> (hi - lo) / step" using assms by simp
  have "real j \<le> real (nat \<lfloor>(hi - lo) / step\<rfloor>)" using assms(3) by simp
  also have "\<dots> = of_int \<lfloor>(hi - lo) / step\<rfloor>" using q by simp
  also have "\<dots> \<le> (hi - lo) / step" by (rule of_int_floor_le)
  finally have "real j * step \<le> hi - lo" using assms(2) by (simp add: pos_le_divide_eq)
  then show ?thesis by simp
qed

lemma stepped_nonempty: "stepped lo step m \<noteq> []"
  by (simp add: stepped_def)

lemma hd_stepped: "hd (stepped lo step m) = lo"
  by (simp add: stepped_def upt_rec del: upt_Suc)

lemma last_stepped: "last (stepped lo step m) = lo + real m * step"
  by (simp add: stepped_def)

lemma set_stepped: "x \<in> set (stepped lo step m) \<longleftrightarrow> (\<exists>j\<le>m. x = lo + real j * step)"
  by (auto simp: stepped_def less_Suc_eq_le simp del: upt_Suc)


lemma range_points_stepped:
  assumes "\<And>j. j \<le> m \<Longrightarrow> lo + real j * step \<le> hi"
  shows "range_points lo hi step (int (Suc m)) = stepped lo step m"
proof -
  have "map (\<lambda>j. min (lo + real j * step) hi) [0..<Suc m]
        = map (\<lambda>j. lo + real j * step) [0..<Suc m]"
  proof (rule map_cong[OF refl])
    fix j assume "j \<in> set [0..<Suc m]"
    then have "j \<le> m" by auto
    from assms[OF this] show "min (lo + real j * step) hi = lo + real j * step"
      by simp
  qed
  then show ?thesis
    unfolding range_points_def stepped_def nat_int .
qed

lemma range_points_feasible:
  assumes "lo \<le> hi" "0 < step"
  shows "range_points lo hi step (int (Suc (nat \<lfloor>(hi - lo) / step\<rfloor>)))
         = stepped lo step (nat \<lfloor>(hi - lo) / step\<rfloor>)"
  by (rule range_points_stepped) (rule step_within[OF assms])

lemma delta_range_feasible:
  assumes "lo \<le> hi" "0 < step"
  shows "delta_range lo hi step =
     Inr (if last (stepped lo step (nat \<lfloor>(hi - lo) / step\<rfloor>)) < hi
          then stepped lo step (nat \<lfloor>(hi - lo) / step\<rfloor>) @ [hi]
          else stepped lo step (nat \<lfloor>(hi - lo) / step\<rfloor>))"
  unfolding delta_range_def num_dp_points_feasible[OF assms] bind_err_def
  by (simp only: sum.case Let_def range_points_feasible[OF assms] stepped_nonempty if_False) simp

lemma axis_first_last:
  assumes "lo \<le> hi" "0 < step" "delta_range lo hi step = Inr ax"
  shows "ax \<noteq> [] \<and> hd ax = lo \<and> last ax = hi"
proof -
  let ?rp = "stepped lo step (nat \<lfloor>(hi - lo) / step\<rfloor>)"
  have ax: "ax = (if last ?rp < hi then ?rp @ [hi] else ?rp)"
    using assms(3) unfolding delta_range_feasible[OF assms(1,2)] by simp
  have l: "last ?rp \<le> hi"
    unfolding last_stepped by (rule step_within[OF assms(1,2)]) simp
  show ?thesis
  proof (cases "last ?rp < hi")
    case True
    then have "ax = ?rp @ [hi]" using ax by simp
    then show ?thesis using stepped_nonempty[of lo step] hd_stepped[of lo step] by simp
  next
    case False
    then have "ax = ?rp" "last ?rp = hi" using ax l by auto
    then show ?thesis using stepped_nonempty[of lo step] hd_stepped[of lo step] by simp
  qed
qed


text \<open>
  Claim C2. For \<open>lo \<le> hi\<close> and a positive step the discretization of \<open>[lo, hi]\<close> raises
  nothing and yields a non-empty axis whose first element is \<open>lo\<close> and whose last element
  is \<open>hi\<close>, whether or not \<open>hi - lo\<close> is a multiple of the step.
\<close>

theorem boundary_inclusion:
  assumes "lo \<le> hi" "0 < step_size"
  shows "\<exists>ax. delta_range lo hi step_size = Inr ax \<and> ax \<noteq> [] \<and> hd ax = lo \<and> last ax = hi"
proof -
  obtain ax where ax: "delta_range lo hi step_size = Inr ax"
    using delta_range_feasible[OF assms] by blast
  with axis_first_last[OF assms ax] show ?thesis by blast
qed

theorem boundary_inclusion_witness:
  "(0::real) \<le> 1 \<and> (0::real) < 3 / 10
   \<and> (\<exists>ax. delta_range 0 1 (3 / 10) = Inr ax \<and> ax \<noteq> [] \<and> hd ax = 0 \<and> last ax = 1)"
  using boundary_inclusion[of 0 1 "3 / 10"] by simp



subsection \<open>The same interval in binary64 arithmetic\<close>

text \<open>\<open>ilog2\<close> is the exponent of the binade of a positive real.\<close>

lemma ilog2_bounds:
  assumes "0 < x"
  shows "2 powi (ilog2 x) \<le> x \<and> x < 2 powi (ilog2 x + 1)"
proof (cases "1 \<le> x")
  case True
  let ?m = "\<lfloor>x\<rfloor>"
  have m: "0 < ?m" using True by simp
  have b1: "1 \<le> bitlen ?m" using m by (simp add: bitlen_alt_def)
  from bitlen_bounds[OF m] have lo: "2 ^ nat (bitlen ?m - 1) \<le> ?m" and hi: "?m < 2 ^ nat (bitlen ?m)"
    by simp_all
  have "(2::real) ^ nat (bitlen ?m - 1) \<le> of_int ?m"
    using lo by (metis of_int_le_iff of_int_numeral of_int_power)
  also have "\<dots> \<le> x" by simp
  finally have l: "2 powi (bitlen ?m - 1) \<le> x"
    using b1 by (simp add: power_int_def)
  have "?m + 1 \<le> 2 ^ nat (bitlen ?m)" using hi by simp
  then have "of_int (?m + 1) \<le> (2::real) ^ nat (bitlen ?m)"
    by (metis of_int_le_iff of_int_numeral of_int_power)
  moreover have "x < of_int (?m + 1)" by linarith
  ultimately have "x < (2::real) ^ nat (bitlen ?m)" by linarith
  then have h: "x < 2 powi (bitlen ?m - 1 + 1)"
    using b1 by (simp add: power_int_def)
  show ?thesis using True l h by (simp add: ilog2_def)
next
  case False
  let ?y = "1 / x"
  let ?m = "\<lceil>?y\<rceil> - 1"
  have y: "1 < ?y" using False assms by simp
  then have m: "0 < ?m" by linarith
  let ?c = "bitlen ?m"
  have c1: "1 \<le> ?c" using m by (simp add: bitlen_alt_def)
  from bitlen_bounds[OF m] have lo: "2 ^ nat (?c - 1) \<le> ?m" and hi: "?m < 2 ^ nat ?c"
    by simp_all
  have "(2::real) ^ nat (?c - 1) \<le> of_int ?m"
    using lo by (metis of_int_le_iff of_int_numeral of_int_power)
  also have "\<dots> < ?y" by linarith
  finally have yl: "(2::real) ^ nat (?c - 1) < ?y" .
  have "?m + 1 \<le> 2 ^ nat ?c" using hi by simp
  then have "of_int (?m + 1) \<le> (2::real) ^ nat ?c"
    by (metis of_int_le_iff of_int_numeral of_int_power)
  moreover have "?y \<le> of_int (?m + 1)" by simp
  ultimately have yh: "?y \<le> (2::real) ^ nat ?c" by linarith
  have p: "(0::real) < 2 ^ nat ?c" "(0::real) < 2 ^ nat (?c - 1)" by simp_all
  have l: "2 powi (- ?c) \<le> x"
  proof -
    have "1 \<le> x * 2 ^ nat ?c" using yh assms by (simp add: field_simps)
    then have "1 / 2 ^ nat ?c \<le> x" using p(1) by (simp add: field_simps)
    then show ?thesis using c1 by (simp add: power_int_def field_simps)
  qed
  have h: "x < 2 powi (- ?c + 1)"
  proof -
    have "x * 2 ^ nat (?c - 1) < 1" using yl assms by (simp add: field_simps)
    then have "x < 1 / 2 ^ nat (?c - 1)" using p(2) by (simp add: field_simps)
    moreover have "2 powi (- ?c + 1) = 1 / (2::real) ^ nat (?c - 1)"
      using c1 by (auto simp: power_int_def field_simps)
    ultimately show ?thesis by simp
  qed
  show ?thesis using False l h by (simp add: ilog2_def)
qed








text \<open>
  Claim C9. When \<open>lo = hi\<close> and the step is positive, the point count is 1 and the axis is
  the single point \<open>lo\<close>; nothing is appended.
\<close>

theorem degenerate_interval:
  assumes "lo = hi" "0 < step_size"
  shows "num_dp_points lo hi step_size = Inr 1 \<and> delta_range lo hi step_size = Inr [lo]"
  using assms
  by (simp add: delta_range_def num_dp_points_def py_int_def range_points_def bind_err_def)

theorem degenerate_interval_witness:
  "(2::real) = 2 \<and> (0::real) < 1 / 10
   \<and> num_dp_points 2 2 (1 / 10) = Inr 1 \<and> delta_range 2 2 (1 / 10) = Inr [2]"
  using degenerate_interval[of 2 2 "1 / 10"] by simp

section \<open>The upper end of the feasible interval\<close>

text \<open>
  Claim C7. The upper end computed on line 37, which takes the minimum with
  \<^verbatim>\<open>delta_params_max\<close> twice, equals the minimum taken once.
\<close>

theorem redundant_clamp: "delta_max_k dmax pmax pk = min dmax (pmax - pk)"
  by (simp add: delta_max_k_def min_def)

section \<open>Input normalization\<close>

text \<open>
  Claim C3, as the code has it. A rank-1 \<^verbatim>\<open>params\<close> of length \<open>R\<close> becomes a matrix of
  shape \<open>(1, R)\<close>, one row and \<open>R\<close> columns, with the same elements, and both bounds get a
  new leading axis of length one.
\<close>

theorem normalization_rank1:
  "normalize_input (vector xs) delta_params_min delta_params_max =
     (matrix 1 (length xs) xs,
      delta_params_min\<lparr>shape := 1 # shape delta_params_min\<rparr>,
      delta_params_max\<lparr>shape := 1 # shape delta_params_max\<rparr>)"
  by (simp add: normalize_input_def vector_def matrix_def ndim_def new_leading_axis_def)

text \<open>
  A vector of length 2 is not normalized to the matrix of shape \<open>(2, 1)\<close> that claim C3
  describes: the shape is \<open>(1, 2)\<close>.
\<close>

theorem normalization_rank1_counterexample:
  "fst (normalize_input (vector [1, 2]) (scalar 0) (scalar 1)) \<noteq> matrix 2 1 [1, 2]
   \<and> shape (fst (normalize_input (vector [1, 2]) (scalar 0) (scalar 1))) = [1, 2]"
  by (simp add: normalize_input_def vector_def matrix_def ndim_def new_leading_axis_def)

section \<open>Inverted intervals\<close>

text \<open>
  Claim C1 at \<^verbatim>\<open>params = [[0, 1]]\<close>, \<^verbatim>\<open>delta_params_min = [0.25]\<close>,
  \<^verbatim>\<open>delta_params_max = [1]\<close>, \<^verbatim>\<open>step_size = 0.5\<close>. For the column \<open>p_k = [1]\<close> the interval
  is \<open>[0.25, 0]\<close>; the quotient \<open>- 0.5\<close> is rounded towards zero, one point \<open>0\<close> is
  generated and clipped to \<open>0.25\<close>. The emitted pair \<open>([1], [0.25])\<close> has
  \<open>p_k + delta_p = 1.25\<close>, above \<open>p_max = 1\<close>.
\<close>

theorem infeasible_point_emitted:
  "consistent_polytope_nd (matrix 1 2 [0, 1]) (vector [1 / 4]) (vector [1]) (1 / 2)
     = Some (Inr [([0], [1 / 4]), ([0], [3 / 4]), ([0], [1]), ([1], [1 / 4])])
   \<and> p_max 1 2 [0, 1] = Inr [1]"
  by code_simp

text \<open>
  Claim C4 at \<^verbatim>\<open>params = [[0, 1]]\<close>, \<^verbatim>\<open>delta_params_min = [1]\<close>,
  \<^verbatim>\<open>delta_params_max = [2]\<close>, \<^verbatim>\<open>step_size = 0.5\<close>. For the column \<open>p_k = [1]\<close> the interval
  is \<open>[1, 0]\<close>, the point count is \<open>- 1\<close>, the list of points is empty and
  \<^verbatim>\<open>range_points[-1]\<close> raises.
\<close>

theorem inverted_interval_raises:
  "consistent_polytope_nd (matrix 1 2 [0, 1]) (vector [1]) (vector [2]) (1 / 2)
     = Some (Inl IndexError)"
  by code_simp

section \<open>Rank-2 input with bounds of matching length\<close>

lemma bind_err_Inr: "bind_err (Inr v) f = f v"
  by (simp add: bind_err_def)

lemma bind_err_Inl: "bind_err (Inl e) f = Inl e"
  by (simp add: bind_err_def)

lemma bind_err_eq_Inr: "bind_err m f = Inr y \<longleftrightarrow> (\<exists>v. m = Inr v \<and> f v = Inr y)"
  by (cases m) (simp_all add: bind_err_def)

lemma sequence_err_map_Inr_id: "sequence_err (map Inr vs) = Inr vs"
  by (induction vs) simp_all

lemma sequence_err_Inr_D: "sequence_err ms = Inr vs \<Longrightarrow> ms = map Inr vs"
proof (induction ms arbitrary: vs)
  case Nil
  then show ?case by simp
next
  case (Cons m ms)
  from Cons.prems obtain v ws where "m = Inr v" "sequence_err ms = Inr ws" "vs = v # ws"
    by (auto split: sum.splits)
  with Cons.IH[of ws] show ?case by simp
qed

lemma sequence_err_Inr_iff: "sequence_err ms = Inr vs \<longleftrightarrow> ms = map Inr vs"
  using sequence_err_Inr_D sequence_err_map_Inr_id by blast

lemma sequence_err_map_Inr: "sequence_err (map (\<lambda>x. Inr (f x)) xs) = Inr (map f xs)"
  by (simp add: sequence_err_Inr_iff)

lemma sequence_err_length: "sequence_err ms = Inr vs \<Longrightarrow> length vs = length ms"
  by (auto simp: sequence_err_Inr_iff)

lemma broadcast2_same: "length xs = length ys \<Longrightarrow> broadcast2 f xs ys = Inr (map2 f xs ys)"
  by (simp add: broadcast2_def)

lemma clip_same:
  "length c = length lo \<Longrightarrow> length lo = length hi \<Longrightarrow>
   clip c lo hi = Inr (map2 min (map2 max c lo) hi)"
  by (simp add: clip_def broadcast2_same bind_err_Inr)

lemma column_grid_rank2:
  assumes "length dmin = R" "length dmax = R"
  shows "column_grid R K xs dmin dmax step
           (map (\<lambda>d. Min (set (row K xs d))) [0..<R]) (map (\<lambda>d. Max (set (row K xs d))) [0..<R]) k
         = bind_err (column_axes R K xs dmin dmax step k) (\<lambda>axes.
           bind_err (delta_combinations axes) (\<lambda>combos.
             Inr (map (\<lambda>c. (column R K xs k, map2 min (map2 max c dmin) dmax)) combos)))"
proof -
  let ?PMIN = "map (\<lambda>d. Min (set (row K xs d))) [0..<R]"
  let ?PMAX = "map (\<lambda>d. Max (set (row K xs d))) [0..<R]"
  let ?PK = "column R K xs k"
  let ?LI = "map2 max (map2 (-) ?PMIN ?PK) (map uminus dmax)"
  let ?LOS = "map2 max dmin ?LI"
  let ?HI = "map2 min (map2 (-) ?PMAX ?PK) dmax"
  let ?HIS = "map2 min dmax ?HI"
  have lpk: "length ?PK = R" by (simp add: column_def)
  have l1: "broadcast2 max (map2 (-) ?PMIN ?PK) (map uminus dmax) = Inr ?LI"
    by (rule broadcast2_same) (simp add: lpk assms)
  have l2: "broadcast2 max dmin ?LI = Inr ?LOS"
    by (rule broadcast2_same) (simp add: lpk assms)
  have l3: "broadcast2 min (map2 (-) ?PMAX ?PK) dmax = Inr ?HI"
    by (rule broadcast2_same) (simp add: lpk assms)
  have l4: "broadcast2 min dmax ?HI = Inr ?HIS"
    by (rule broadcast2_same) (simp add: lpk assms)
  have llos: "length ?LOS = R" and lhis: "length ?HIS = R"
    by (simp_all add: lpk assms)
  have los: "?LOS ! d = interval_lo K xs dmin dmax k d" if "d < R" for d
    using that by (simp add: interval_lo_def delta_min_k_def assms lpk column_def)
  have his: "?HIS ! d = interval_hi K xs dmax k d" if "d < R" for d
    using that by (simp add: interval_hi_def delta_max_k_def assms lpk column_def)
  have axes: "sequence_err (map (\<lambda>d.
          if d < length ?LOS \<and> d < length ?HIS then delta_range (?LOS ! d) (?HIS ! d) step
          else Inl IndexError) [0..<R]) = column_axes R K xs dmin dmax step k"
    unfolding column_axes_def
    by (rule arg_cong[where f = sequence_err], rule map_cong[OF refl])
       (simp add: los his llos lhis del: length_map)
  have clips: "sequence_err (map (\<lambda>delta_p.
          bind_err (clip delta_p dmin dmax) (\<lambda>c. Inr (?PK, c))) (product_lists axs))
        = Inr (map (\<lambda>c. (?PK, map2 min (map2 max c dmin) dmax)) (product_lists axs))"
    if "length axs = R" for axs
  proof -
    have "map (\<lambda>delta_p. bind_err (clip delta_p dmin dmax) (\<lambda>c. Inr (?PK, c))) (product_lists axs)
          = map (\<lambda>c. Inr (?PK, map2 min (map2 max c dmin) dmax)) (product_lists axs)"
    proof (rule map_cong[OF refl])
      fix c assume "c \<in> set (product_lists axs)"
      then have "length c = R" using that by (simp add: in_set_product_lists_length)
      then show "bind_err (clip c dmin dmax) (\<lambda>c. Inr (?PK, c))
                 = Inr (?PK, map2 min (map2 max c dmin) dmax)"
        by (simp add: clip_same assms bind_err_Inr)
    qed
    then show ?thesis by (simp only: sequence_err_map_Inr)
  qed
  have "column_grid R K xs dmin dmax step ?PMIN ?PMAX k
        = bind_err (column_axes R K xs dmin dmax step k) (\<lambda>delta_ranges.
          bind_err (delta_combinations delta_ranges) (\<lambda>combos.
          sequence_err (map (\<lambda>delta_p.
              bind_err (clip delta_p dmin dmax) (\<lambda>c. Inr (?PK, c))) combos)))"
    by (simp only: column_grid_def Let_def l1 l2 l3 l4 bind_err_Inr axes)
  also have "\<dots> = bind_err (column_axes R K xs dmin dmax step k) (\<lambda>axes.
           bind_err (delta_combinations axes) (\<lambda>combos.
             Inr (map (\<lambda>c. (?PK, map2 min (map2 max c dmin) dmax)) combos)))"
  proof (cases "column_axes R K xs dmin dmax step k")
    case (Inl e)
    then show ?thesis by (simp add: bind_err_Inl)
  next
    case (Inr axs)
    then have "length axs = R"
      unfolding column_axes_def by (auto dest: sequence_err_length)
    from clips[OF this] Inr show ?thesis
      by (simp add: bind_err_Inr delta_combinations_def bind_err_Inl)
  qed
  finally show ?thesis .
qed


lemma consistent_rank2:
  assumes "length xs = R * K" "length dmin = R" "length dmax = R"
  shows "consistent_polytope_nd (matrix R K xs) (vector dmin) (vector dmax) step
         = Some (polytope_grid R K xs dmin dmax step)"
  using assms
  by (simp add: consistent_polytope_nd_def normalize_input_def matrix_def vector_def ndim_def
      well_shaped_def)

lemma polytope_grid_Inr_D:
  assumes "polytope_grid R K xs dmin dmax step = Inr out"
  shows "0 < K \<and> (\<exists>groups. out = concat groups \<and> length groups = K \<and>
           (\<forall>k<K. column_grid R K xs dmin dmax step
                     (map (\<lambda>d. Min (set (row K xs d))) [0..<R])
                     (map (\<lambda>d. Max (set (row K xs d))) [0..<R]) k = Inr (groups ! k)))"
proof -
  let ?f = "column_grid R K xs dmin dmax step
                     (map (\<lambda>d. Min (set (row K xs d))) [0..<R])
                     (map (\<lambda>d. Max (set (row K xs d))) [0..<R])"
  have K: "0 < K"
    using assms by (cases "K = 0") (simp_all add: polytope_grid_def p_min_def bind_err_Inl)
  then have "bind_err (sequence_err (map ?f [0..<K])) (\<lambda>groups. Inr (concat groups)) = Inr out"
    using assms by (simp add: polytope_grid_def p_min_def p_max_def bind_err_Inr)
  then obtain groups where g: "sequence_err (map ?f [0..<K]) = Inr groups" "out = concat groups"
    unfolding bind_err_eq_Inr by auto
  from g(1) have m: "map ?f [0..<K] = map Inr groups"
    by (rule sequence_err_Inr_D)
  then have len: "length groups = K"
    using map_eq_imp_length_eq by fastforce
  have "\<forall>k<K. ?f k = Inr (groups ! k)"
  proof (intro allI impI)
    fix k assume k: "k < K"
    have "map ?f [0..<K] ! k = map Inr groups ! k" using m by simp
    then show "?f k = Inr (groups ! k)" using k len by simp
  qed
  with K g(2) len show ?thesis by blast
qed

lemma length_product_lists_prod: "length (product_lists xss) = prod_list (map length xss)"
  by (induction xss) (simp_all add: length_concat o_def sum_list_triv)

text \<open>
  Claim C5. When the call returns \<open>out\<close>, then \<open>out\<close> is the concatenation of \<open>K\<close> groups,
  in the order of the columns. The group of column \<open>k\<close> lists, in the order of the
  Cartesian product of the \<open>R\<close> axes of that column, the pair of \<open>p_k\<close> and the clipped
  combination; its length is the product of the lengths of the axes.
\<close>

theorem cartesian_completeness:
  assumes "length xs = R * K" "length dmin = R" "length dmax = R"
    and "consistent_polytope_nd (matrix R K xs) (vector dmin) (vector dmax) step = Some (Inr out)"
  shows "\<exists>groups. out = concat groups \<and> length groups = K \<and>
           (\<forall>k<K. \<exists>axes. column_axes R K xs dmin dmax step k = Inr axes \<and> length axes = R
                 \<and> map (\<lambda>(p_k, delta_p). (p_k, Inr delta_p)) (groups ! k)
                    = map (\<lambda>c. (column R K xs k, clip c dmin dmax)) (product_lists axes)
                 \<and> length (groups ! k) = prod_list (map length axes))"
proof -
  from assms have "polytope_grid R K xs dmin dmax step = Inr out"
    by (simp add: consistent_rank2)
  from polytope_grid_Inr_D[OF this] obtain groups where
    g: "out = concat groups" "length groups = K"
       "\<forall>k<K. column_grid R K xs dmin dmax step
                     (map (\<lambda>d. Min (set (row K xs d))) [0..<R])
                     (map (\<lambda>d. Max (set (row K xs d))) [0..<R]) k = Inr (groups ! k)"
    by blast
  have "\<exists>axes. column_axes R K xs dmin dmax step k = Inr axes \<and> length axes = R
                 \<and> map (\<lambda>(p_k, delta_p). (p_k, Inr delta_p)) (groups ! k)
                    = map (\<lambda>c. (column R K xs k, clip c dmin dmax)) (product_lists axes)
                 \<and> length (groups ! k) = prod_list (map length axes)" if k: "k < K" for k
  proof -
    from g(3) k have "bind_err (column_axes R K xs dmin dmax step k) (\<lambda>axes.
           bind_err (delta_combinations axes) (\<lambda>combos.
             Inr (map (\<lambda>c. (column R K xs k, map2 min (map2 max c dmin) dmax)) combos)))
          = Inr (groups ! k)"
      by (simp add: column_grid_rank2[OF assms(2,3)])
    then obtain axes combos where
      a: "column_axes R K xs dmin dmax step k = Inr axes"
      and c: "delta_combinations axes = Inr combos"
      and gk: "groups ! k = map (\<lambda>c. (column R K xs k, map2 min (map2 max c dmin) dmax)) combos"
      unfolding bind_err_eq_Inr by auto
    from a have la: "length axes = R"
      unfolding column_axes_def by (auto dest: sequence_err_length)
    from c have combos: "combos = product_lists axes"
      by (auto simp: delta_combinations_def split: if_splits)
    have "map (\<lambda>(p_k, delta_p). (p_k, Inr delta_p)) (groups ! k)
          = map (\<lambda>c. (column R K xs k, clip c dmin dmax)) (product_lists axes)"
      unfolding gk combos map_map
    proof (rule map_cong[OF refl])
      fix c assume "c \<in> set (product_lists axes)"
      then have "length c = R" using la by (simp add: in_set_product_lists_length)
      then show "((\<lambda>(p_k, delta_p). (p_k, Inr delta_p)) \<circ>
                  (\<lambda>c. (column R K xs k, map2 min (map2 max c dmin) dmax))) c
                 = (column R K xs k, clip c dmin dmax)"
        by (simp add: clip_same assms)
    qed
    moreover have "length (groups ! k) = prod_list (map length axes)"
      unfolding gk combos by (simp add: length_product_lists_prod)
    ultimately show ?thesis using a la by blast
  qed
  with g(1,2) show ?thesis by blast
qed

theorem cartesian_completeness_witness:
  "\<exists>out. consistent_polytope_nd (matrix 2 2 [0, 1, 0, 2]) (vector [- 1, - 1]) (vector [1, 1]) 1
           = Some (Inr out) \<and>
     (\<exists>groups. out = concat groups \<and> length groups = 2 \<and>
           (\<forall>k<2. \<exists>axes. column_axes 2 2 [0, 1, 0, 2] [- 1, - 1] [1, 1] 1 k = Inr axes
                 \<and> length axes = 2
                 \<and> map (\<lambda>(p_k, delta_p). (p_k, Inr delta_p)) (groups ! k)
                    = map (\<lambda>c. (column 2 2 [0, 1, 0, 2] k, clip c [- 1, - 1] [1, 1]))
                        (product_lists axes)
                 \<and> length (groups ! k) = prod_list (map length axes)))"
proof -
  have e: "consistent_polytope_nd (matrix 2 2 [0, 1, 0, 2]) (vector [- 1, - 1]) (vector [1, 1]) 1
        = Some (Inr [([0, 0], [0, 0]), ([0, 0], [0, 1]), ([0, 0], [1, 0]), ([0, 0], [1, 1]),
                     ([1, 2], [- 1, - 1]), ([1, 2], [- 1, 0]), ([1, 2], [0, - 1]), ([1, 2], [0, 0])])"
    by code_simp
  show ?thesis
    using cartesian_completeness[of "[0, 1, 0, 2]" 2 2 "[- 1, - 1]" "[1, 1]" 1, OF _ _ _ e]
    unfolding e by simp
qed


section \<open>Bounds that admit the zero delta\<close>














section \<open>Feasibility of the emitted pairs when no interval is inverted\<close>

lemma axis_within:
  assumes "lo \<le> hi" "0 < step" "delta_range lo hi step = Inr ax" "x \<in> set ax"
  shows "lo \<le> x \<and> x \<le> hi"
proof -
  let ?m = "nat \<lfloor>(hi - lo) / step\<rfloor>"
  have "ax = (if last (stepped lo step ?m) < hi then stepped lo step ?m @ [hi] else stepped lo step ?m)"
    using assms(3) unfolding delta_range_feasible[OF assms(1,2)] by simp
  then have "x = hi \<or> x \<in> set (stepped lo step ?m)"
    using assms(4) by (auto split: if_splits)
  then show ?thesis
  proof
    assume "x = hi" then show ?thesis using assms(1) by simp
  next
    assume "x \<in> set (stepped lo step ?m)"
    then obtain j where j: "j \<le> ?m" "x = lo + real j * step"
      unfolding set_stepped by blast
    have "0 \<le> real j * step" using assms(2) by simp
    then show ?thesis using j step_within[OF assms(1,2) j(1)] by simp
  qed
qed

lemma interval_bounds:
  "dmin ! d \<le> interval_lo K xs dmin dmax k d"
  "Min (set (row K xs d)) - xs ! (d * K + k) \<le> interval_lo K xs dmin dmax k d"
  "interval_hi K xs dmax k d \<le> dmax ! d"
  "interval_hi K xs dmax k d \<le> Max (set (row K xs d)) - xs ! (d * K + k)"
  by (simp_all add: interval_lo_def interval_hi_def delta_min_k_def delta_max_k_def)

text \<open>
  When the call returns and the interval of every dimension of every column has
  \<open>lo \<le> hi\<close>, each emitted pair belongs to a column \<open>k\<close>, its delta respects both bounds
  and the perturbed parameter stays within the envelope.
\<close>

lemma feasible_intervals_feasible_pairs:
  assumes "length xs = R * K" "length dmin = R" "length dmax = R" "0 < step"
    and "consistent_polytope_nd (matrix R K xs) (vector dmin) (vector dmax) step = Some (Inr out)"
    and "\<forall>k<K. \<forall>d<R. interval_lo K xs dmin dmax k d \<le> interval_hi K xs dmax k d"
    and "(p_k, delta_p) \<in> set out"
  shows "\<exists>k<K. p_k = column R K xs k \<and> length delta_p = R \<and>
           (\<forall>d<R. dmin ! d \<le> delta_p ! d \<and> delta_p ! d \<le> dmax ! d
                 \<and> Min (set (row K xs d)) \<le> p_k ! d + delta_p ! d
                 \<and> p_k ! d + delta_p ! d \<le> Max (set (row K xs d)))"
proof -
  from assms have "polytope_grid R K xs dmin dmax step = Inr out"
    by (simp add: consistent_rank2)
  from polytope_grid_Inr_D[OF this] obtain groups where
    g: "out = concat groups" "length groups = K"
       "\<forall>k<K. column_grid R K xs dmin dmax step
                     (map (\<lambda>d. Min (set (row K xs d))) [0..<R])
                     (map (\<lambda>d. Max (set (row K xs d))) [0..<R]) k = Inr (groups ! k)"
    by blast
  from assms(7) g(1) obtain grp where "grp \<in> set groups" "(p_k, delta_p) \<in> set grp"
    by auto
  then obtain k where k: "k < K" "(p_k, delta_p) \<in> set (groups ! k)"
    using g(2) by (metis in_set_conv_nth)
  from g(3) k(1) have "bind_err (column_axes R K xs dmin dmax step k) (\<lambda>axes.
           bind_err (delta_combinations axes) (\<lambda>combos.
             Inr (map (\<lambda>c. (column R K xs k, map2 min (map2 max c dmin) dmax)) combos)))
          = Inr (groups ! k)"
    by (simp add: column_grid_rank2[OF assms(2,3)])
  then obtain axes combos where
    a: "column_axes R K xs dmin dmax step k = Inr axes"
    and c: "delta_combinations axes = Inr combos"
    and gk: "groups ! k = map (\<lambda>c. (column R K xs k, map2 min (map2 max c dmin) dmax)) combos"
    unfolding bind_err_eq_Inr by auto
  from c have combos: "combos = product_lists axes"
    by (auto simp: delta_combinations_def split: if_splits)
  from a have m: "map (\<lambda>d. delta_range (interval_lo K xs dmin dmax k d)
                                         (interval_hi K xs dmax k d) step) [0..<R] = map Inr axes"
    unfolding column_axes_def by (rule sequence_err_Inr_D)
  then have la: "length axes = R"
    using map_eq_imp_length_eq by fastforce
  have axd: "delta_range (interval_lo K xs dmin dmax k d) (interval_hi K xs dmax k d) step
             = Inr (axes ! d)" if "d < R" for d
  proof -
    have "map (\<lambda>d. delta_range (interval_lo K xs dmin dmax k d)
                (interval_hi K xs dmax k d) step) [0..<R] ! d = map Inr axes ! d"
      using m by simp
    then show ?thesis using that la by simp
  qed
  from k(2) obtain c where c: "c \<in> set (product_lists axes)" "p_k = column R K xs k"
    "delta_p = map2 min (map2 max c dmin) dmax"
    unfolding gk combos by auto
  from c(1) have l2: "list_all2 (\<lambda>x ys. x \<in> set ys) c axes"
    by (simp add: product_lists_set)
  then have lc: "length c = R" using la by (simp add: list_all2_lengthD)
  have "dmin ! d \<le> delta_p ! d \<and> delta_p ! d \<le> dmax ! d
                 \<and> Min (set (row K xs d)) \<le> p_k ! d + delta_p ! d
                 \<and> p_k ! d + delta_p ! d \<le> Max (set (row K xs d))" if d: "d < R" for d
  proof -
    have "c ! d \<in> set (axes ! d)"
      using list_all2_nthD[OF l2, of d] d lc by simp
    from axis_within[OF _ assms(4) axd[OF d] this] assms(6) k(1) d
    have w: "interval_lo K xs dmin dmax k d \<le> c ! d" "c ! d \<le> interval_hi K xs dmax k d"
      by simp_all
    have b: "dmin ! d \<le> c ! d" "c ! d \<le> dmax ! d"
      "Min (set (row K xs d)) - xs ! (d * K + k) \<le> c ! d"
      "c ! d \<le> Max (set (row K xs d)) - xs ! (d * K + k)"
    proof -
      have "dmin ! d \<le> interval_lo K xs dmin dmax k d" by (rule interval_bounds)
      then show "dmin ! d \<le> c ! d" using w(1) by linarith
      have "interval_hi K xs dmax k d \<le> dmax ! d" by (rule interval_bounds)
      then show "c ! d \<le> dmax ! d" using w(2) by linarith
      have "Min (set (row K xs d)) - xs ! (d * K + k) \<le> interval_lo K xs dmin dmax k d"
        by (rule interval_bounds)
      then show "Min (set (row K xs d)) - xs ! (d * K + k) \<le> c ! d" using w(1) by linarith
      have "interval_hi K xs dmax k d \<le> Max (set (row K xs d)) - xs ! (d * K + k)"
        by (rule interval_bounds)
      then show "c ! d \<le> Max (set (row K xs d)) - xs ! (d * K + k)" using w(2) by linarith
    qed
    have dp: "delta_p ! d = c ! d"
      using d lc assms(2,3) b(1,2) by (simp add: c(3))
    have pk: "p_k ! d = xs ! (d * K + k)"
      using d by (simp add: c(2) column_def)
    show ?thesis using b unfolding dp pk by linarith
  qed
  moreover have "length delta_p = R"
    using lc assms(2,3) by (simp add: c(3))
  ultimately show ?thesis using k(1) c(2) by blast
qed


end
